theory Spec2Isabelle
  imports Main "HOL-Library.AList"
begin

section \<open>Strings and dictionaries of the source language\<close>

text \<open>
  A Python \<open>str\<close> is a \<open>string\<close>; a \<open>char\<close> stands for a code point below 256.
  \<open>is_space\<close> is \<open>str.isspace\<close> on that range.
\<close>

definition is_space :: "char \<Rightarrow> bool" where
  "is_space c = (of_char c \<in> {9, 10, 11, 12, 13, 28, 29, 30, 31, 32, 133, 160 :: nat})"

definition strip :: "string \<Rightarrow> string" where
  "strip s = rev (dropWhile is_space (rev (dropWhile is_space s)))"

text \<open>
  Truthiness of an \<open>Optional[str]\<close>: \<open>None\<close> and the empty string are false.
  \<open>por a b\<close> is \<open>a or b\<close>.
\<close>

definition truthy :: "string option \<Rightarrow> bool" where
  "truthy v = (case v of None \<Rightarrow> False | Some s \<Rightarrow> s \<noteq> [])"

definition por :: "string option \<Rightarrow> string option \<Rightarrow> string option" where
  "por a b = (if truthy a then a else b)"

text \<open>\<open>x.text.strip() if x.text else None\<close>\<close>

definition strip_text :: "string option \<Rightarrow> string option" where
  "strip_text t = (if truthy t then map_option strip t else None)"

text \<open>\<open>x.text and x.text.strip()\<close> as a condition\<close>

definition nonblank :: "string option \<Rightarrow> bool" where
  "nonblank t = (truthy t \<and> truthy (map_option strip t))"

text \<open>
  A \<open>dict\<close> is an association list with distinct keys, in insertion order:
  \<open>d[k] = v\<close> replaces the value where the key stands, or adds the key at the end.
\<close>

definition dict_set :: "'k \<Rightarrow> 'v \<Rightarrow> ('k \<times> 'v) list \<Rightarrow> ('k \<times> 'v) list" where
  "dict_set k v d = AList.update k v d"

text \<open>The decimal numeral that \<open>f"{n}"\<close> prints for a natural number.\<close>

definition digit_char :: "nat \<Rightarrow> char" where
  "digit_char d = char_of (d + 48)"

fun string_of_nat :: "nat \<Rightarrow> string" where
  "string_of_nat n =
     (if 10 \<le> n then string_of_nat (n div 10) @ [digit_char (n mod 10)] else [digit_char n])"

declare string_of_nat.simps [simp del]

datatype error = AttributeError

section \<open>XML elements\<close>

text \<open>
  An \<open>xml.etree.ElementTree.Element\<close>: tag, attribute dictionary, optional text and the
  child elements in document order.
\<close>

datatype elem = Elem (el_tag: string) (el_attrib: "(string \<times> string) list")
  (el_text: "string option") (el_children: "elem list")

definition strip_ns :: "string \<Rightarrow> string" where
  "strip_ns t = (if CHR ''}'' \<in> set t then tl (dropWhile (\<lambda>c. c \<noteq> CHR ''}'') t) else t)"

text \<open>\<open>elem.iter()\<close>: the element and all its descendants, in document order.\<close>

fun iter :: "elem \<Rightarrow> elem list" where
  "iter (Elem t a x cs) = Elem t a x cs # concat (map iter cs)"

section \<open>Raw form\<close>

text \<open>
  The value stored under a key of the dictionary built by \<open>elem_to_dict\<close> is the attribute
  dictionary (under \<open>_attrs\<close>), the trimmed text (under \<open>_text\<close>) or the list of the raw
  forms of the children with one tag.
\<close>

datatype raw_val = RAttrs "(string \<times> string) list" | RText string
  | RList "(string \<times> raw_val) list list"

type_synonym raw = "(string \<times> raw_val) list"

text \<open>
  \<open>d.setdefault(tag, []).append(child_dict)\<close>: only a list has \<open>append\<close>; on the
  dictionary under \<open>_attrs\<close> or the string under \<open>_text\<close> Python raises AttributeError.
\<close>

definition setdefault_append :: "string \<Rightarrow> raw \<Rightarrow> raw \<Rightarrow> error + raw" where
  "setdefault_append tag child_dict d =
     (case map_of d tag of
        None \<Rightarrow> Inr (d @ [(tag, RList [child_dict])])
      | Some (RList cs) \<Rightarrow> Inr (dict_set tag (RList (cs @ [child_dict])) d)
      | Some (RAttrs a) \<Rightarrow> Inl AttributeError
      | Some (RText s) \<Rightarrow> Inl AttributeError)"

definition child_key :: "elem \<Rightarrow> string" where
  "child_key child = (if strip_ns (el_tag child) = [] then ''unknown'' else strip_ns (el_tag child))"

fun elem_to_dict :: "elem \<Rightarrow> error + raw"
  and add_children :: "raw \<Rightarrow> elem list \<Rightarrow> error + raw" where
  "elem_to_dict (Elem t a x cs) =
     (let d0 = (if a \<noteq> [] then [(''_attrs'', RAttrs a)] else []);
          text = (if nonblank x then map_option strip x else None);
          d1 = (if truthy text then d0 @ [(''_text'', RText (the text))] else d0)
      in add_children d1 cs)"
| "add_children d [] = Inr d"
| "add_children d (child # cs) =
     (case elem_to_dict child of
        Inl e \<Rightarrow> Inl e
      | Inr child_dict \<Rightarrow>
          (case setdefault_append (child_key child) child_dict d of
             Inl e \<Rightarrow> Inl e
           | Inr d' \<Rightarrow> add_children d' cs))"

section \<open>Tag aliasing and classification\<close>

text \<open>The entries of \<open>TAG_ALIASES\<close> that \<open>collect_objects\<close> reads.\<close>

definition alias_person :: "string list" where
  "alias_person = [''person'', ''person_obj'', ''individual'']"

definition alias_family :: "string list" where
  "alias_family = [''family'', ''family_obj'']"

definition alias_event :: "string list" where
  "alias_event = [''event'']"

definition alias_place :: "string list" where
  "alias_place = [''place'', ''Place'', ''PLACE'']"

definition alias_media :: "string list" where
  "alias_media = [''media'', ''media_list'', ''images'']"

definition alias_sources :: "string list" where
  "alias_sources = [''sources'', ''source_list'']"

definition alias_citations :: "string list" where
  "alias_citations = [''citations'', ''citation_list'']"

definition alias_repositories :: "string list" where
  "alias_repositories = [''repositories'', ''repository_list'']"

definition alias_notes :: "string list" where
  "alias_notes = [''notes'', ''note_list'']"

definition alias_tags :: "string list" where
  "alias_tags = [''tags'', ''tag_list'']"

record buckets =
  b_people :: "elem list"
  b_families :: "elem list"
  b_events :: "elem list"
  b_places :: "elem list"
  b_media :: "elem list"
  b_sources :: "elem list"
  b_citations :: "elem list"
  b_repositories :: "elem list"
  b_notes :: "elem list"
  b_tags :: "elem list"

definition no_buckets :: buckets where
  "no_buckets = \<lparr>b_people = [], b_families = [], b_events = [], b_places = [], b_media = [],
     b_sources = [], b_citations = [], b_repositories = [], b_notes = [], b_tags = []\<rparr>"

definition classify :: "buckets \<Rightarrow> elem \<Rightarrow> buckets" where
  "classify b el =
     (let st = strip_ns (el_tag el) in
      if st \<in> set alias_person then b\<lparr>b_people := b_people b @ [el]\<rparr>
      else if st \<in> set alias_family then b\<lparr>b_families := b_families b @ [el]\<rparr>
      else if st \<in> set alias_event then b\<lparr>b_events := b_events b @ [el]\<rparr>
      else if st \<in> set alias_place then b\<lparr>b_places := b_places b @ [el]\<rparr>
      else if st \<in> set alias_media then b\<lparr>b_media := b_media b @ [el]\<rparr>
      else if st \<in> set alias_sources then b\<lparr>b_sources := b_sources b @ [el]\<rparr>
      else if st \<in> set alias_citations then b\<lparr>b_citations := b_citations b @ [el]\<rparr>
      else if st \<in> set alias_repositories then b\<lparr>b_repositories := b_repositories b @ [el]\<rparr>
      else if st \<in> set alias_notes then b\<lparr>b_notes := b_notes b @ [el]\<rparr>
      else if st \<in> set alias_tags then b\<lparr>b_tags := b_tags b @ [el]\<rparr>
      else b)"

definition collect_objects :: "elem \<Rightarrow> buckets" where
  "collect_objects root = foldl classify no_buckets (iter root)"

section \<open>Handles\<close>

text \<open>The loop of \<open>extract_handle\<close> over the children of the element.\<close>

fun handle_child :: "elem list \<Rightarrow> string option" where
  "handle_child [] = None"
| "handle_child (child # cs) =
     (if strip_ns (el_tag child) \<in> set [''handle'', ''id''] \<and> nonblank (el_text child)
      then map_option strip (el_text child)
      else handle_child cs)"

definition extract_handle :: "elem \<Rightarrow> string option" where
  "extract_handle elem =
     (case map_of (el_attrib elem) ''handle'' of
        Some v \<Rightarrow> Some v
      | None \<Rightarrow>
          (case map_of (el_attrib elem) ''id'' of
             Some v \<Rightarrow> Some v
           | None \<Rightarrow> handle_child (el_children elem)))"

text \<open>\<open>extract_handle(x) or f"{kind}_{len(out)+1}"\<close>\<close>

definition handle_or :: "string option \<Rightarrow> string \<Rightarrow> nat \<Rightarrow> string" where
  "handle_or eh kind len_out =
     (case eh of
        None \<Rightarrow> kind @ ''_'' @ string_of_nat (len_out + 1)
      | Some h \<Rightarrow> if h \<noteq> [] then h else kind @ ''_'' @ string_of_nat (len_out + 1))"

section \<open>Records\<close>

text \<open>
  A name entry made by the fallback of \<open>parse_people\<close> has no \<open>prefix\<close> and \<open>suffix\<close>
  keys; they read as absent here, which is what \<open>dict.get\<close> returns for them.
\<close>

record name_entry =
  nm_formatted :: "string option"
  nm_given :: "string option"
  nm_surname :: "string option"
  nm_prefix :: "string option"
  nm_suffix :: "string option"
  nm_raw :: raw

record person =
  p_handle :: string
  p_raw :: raw
  p_names :: "name_entry list"
  p_event_refs :: "string list"
  p_attributes :: "raw list"
  p_parents :: "string list"
  p_children :: "string list"
  p_families_as_parent :: "string list"
  p_families_as_child :: "string option"

record family =
  f_handle :: string
  f_raw :: raw
  f_father :: "string option"
  f_mother :: "string option"
  f_children :: "string list"

text \<open>A generic record; \<open>o_file\<close> is the \<open>file\<close> key, which only extracted media carry.\<close>

record obj =
  o_handle :: string
  o_raw :: raw
  o_file :: "string option"

type_synonym people = "(string \<times> person) list"
type_synonym families = "(string \<times> family) list"
type_synonym objs = "(string \<times> obj) list"

section \<open>Person parser\<close>

definition text_or_empty :: "elem \<Rightarrow> string" where
  "text_or_empty child = (case el_text child of None \<Rightarrow> [] | Some s \<Rightarrow> s)"

text \<open>
  The body of the loop over the children of one name element, on the five variables of
  the loop; a later match overwrites.
\<close>

definition name_field :: "string option \<times> string option \<times> string option \<times> string option \<times>
    string option \<Rightarrow> elem \<Rightarrow>
    string option \<times> string option \<times> string option \<times> string option \<times> string option" where
  "name_field st child =
     (case st of (formatted, given, surname, prefix, suffix) \<Rightarrow>
        (let t = strip_ns (el_tag child) in
         if t \<in> set [''formatted'', ''full'', ''display'']
         then (strip_text (el_text child), given, surname, prefix, suffix)
         else if t \<in> set [''given'', ''first'', ''first_name'', ''forename'']
         then (formatted, Some (strip (text_or_empty child)), surname, prefix, suffix)
         else if t \<in> set [''surname'', ''last'', ''last_name'', ''family'']
         then (formatted, given, Some (strip (text_or_empty child)), prefix, suffix)
         else if t \<in> set [''prefix'', ''title'']
         then (formatted, given, surname, Some (strip (text_or_empty child)), suffix)
         else if t \<in> set [''suffix'']
         then (formatted, given, surname, prefix, Some (strip (text_or_empty child)))
         else st))"

definition scan_name :: "elem list \<Rightarrow>
    string option \<times> string option \<times> string option \<times> string option \<times> string option" where
  "scan_name cs = foldl name_field (None, None, None, None, None) cs"

fun parse_names :: "elem list \<Rightarrow> error + name_entry list" where
  "parse_names [] = Inr []"
| "parse_names (name_el # rest) =
     (case scan_name (el_children name_el) of
        (formatted, given, surname, prefix, suffix) \<Rightarrow>
          (case elem_to_dict name_el of
             Inl e \<Rightarrow> Inl e
           | Inr r \<Rightarrow>
               (case parse_names rest of
                  Inl e \<Rightarrow> Inl e
                | Inr names \<Rightarrow>
                    Inr (\<lparr>nm_formatted = formatted, nm_given = given, nm_surname = surname,
                          nm_prefix = prefix, nm_suffix = suffix, nm_raw = r\<rparr> # names))))"

text \<open>The fallback loop: the text of the last \<open>display_name\<close> or \<open>display\<close> child.\<close>

fun maybe_name :: "elem list \<Rightarrow> string option \<Rightarrow> string option" where
  "maybe_name [] acc = acc"
| "maybe_name (c # cs) acc =
     (if strip_ns (el_tag c) \<in> set [''display_name'', ''display'']
      then maybe_name cs (strip_text (el_text c))
      else maybe_name cs acc)"

definition event_ref :: "elem \<Rightarrow> string option" where
  "event_ref evref =
     por (map_of (el_attrib evref) ''ref'')
       (por (map_of (el_attrib evref) ''handle'') (strip_text (el_text evref)))"

fun collect_raw :: "elem list \<Rightarrow> error + raw list" where
  "collect_raw [] = Inr []"
| "collect_raw (a # rest) =
     (case elem_to_dict a of
        Inl e \<Rightarrow> Inl e
      | Inr r \<Rightarrow> (case collect_raw rest of Inl e \<Rightarrow> Inl e | Inr rs \<Rightarrow> Inr (r # rs)))"

text \<open>The body of the loop of \<open>parse_people\<close> for one element, the handle chosen.\<close>

definition parse_person :: "string \<Rightarrow> elem \<Rightarrow> error + person" where
  "parse_person h p =
     (case elem_to_dict p of
        Inl e \<Rightarrow> Inl e
      | Inr r \<Rightarrow>
          (case parse_names (filter (\<lambda>c. strip_ns (el_tag c) \<in>
                   set [''name'', ''names'', ''display_name'', ''personal_name'']) (el_children p)) of
             Inl e \<Rightarrow> Inl e
           | Inr names0 \<Rightarrow>
               (let names =
                      (if names0 = []
                       then [\<lparr>nm_formatted = maybe_name (el_children p) None, nm_given = None,
                              nm_surname = None, nm_prefix = None, nm_suffix = None, nm_raw = r\<rparr>]
                       else names0);
                    event_refs = map the (filter truthy (map event_ref
                      (filter (\<lambda>c. strip_ns (el_tag c) \<in> set [''event_ref'', ''eventref'', ''event''])
                         (el_children p))))
                in case collect_raw (filter (\<lambda>c. strip_ns (el_tag c) \<in>
                          set [''attribute'', ''attributes'', ''custom'']) (el_children p)) of
                     Inl e \<Rightarrow> Inl e
                   | Inr attrs \<Rightarrow>
                       Inr \<lparr>p_handle = h, p_raw = r, p_names = names, p_event_refs = event_refs,
                            p_attributes = attrs, p_parents = [], p_children = [],
                            p_families_as_parent = [], p_families_as_child = None\<rparr>)))"

fun parse_people_from :: "people \<Rightarrow> elem list \<Rightarrow> error + people" where
  "parse_people_from out [] = Inr out"
| "parse_people_from out (p # rest) =
     (let h = handle_or (extract_handle p) ''person'' (length out) in
      case parse_person h p of
        Inl e \<Rightarrow> Inl e
      | Inr rec \<Rightarrow> parse_people_from (dict_set h rec out) rest)"

definition parse_people :: "elem list \<Rightarrow> error + people" where
  "parse_people person_elements = parse_people_from [] person_elements"

section \<open>Family parser\<close>

text \<open>
  The search of a child reference for a nested handle: the first element of \<open>c.iter()\<close>
  with tag \<open>handle\<close> or \<open>ref\<close> and non-blank text.
\<close>

fun find_handle :: "elem list \<Rightarrow> string option" where
  "find_handle [] = None"
| "find_handle (d # ds) =
     (if strip_ns (el_tag d) \<in> set [''handle'', ''ref''] \<and> nonblank (el_text d)
      then map_option strip (el_text d)
      else find_handle ds)"

text \<open>What one child-reference element appends to \<open>children\<close>: one handle or nothing.\<close>

definition child_ref :: "elem \<Rightarrow> string list" where
  "child_ref c =
     (case map_of (el_attrib c) ''ref'' of
        Some r \<Rightarrow> [r]
      | None \<Rightarrow>
          (let found = find_handle (iter c) in
           if truthy found then [the found]
           else if nonblank (el_text c) then [strip (the (el_text c))]
           else []))"

definition parent_ref :: "elem \<Rightarrow> string option" where
  "parent_ref c = por (map_of (el_attrib c) ''ref'') (strip_text (el_text c))"

text \<open>
  The body of the loop over the children of a family element, on \<open>father\<close>, \<open>mother\<close>
  and \<open>children\<close>.
\<close>

definition family_field :: "string option \<times> string option \<times> string list \<Rightarrow> elem \<Rightarrow>
    string option \<times> string option \<times> string list" where
  "family_field st c =
     (case st of (father, mother, children) \<Rightarrow>
        (let tag = strip_ns (el_tag c) in
         if tag \<in> set [''father'', ''husband'', ''father_ref'', ''father_handle'', ''parent'']
         then (if truthy (parent_ref c) then parent_ref c else father, mother, children)
         else if tag \<in> set [''mother'', ''wife'', ''mother_ref'', ''mother_handle'']
         then (father, if truthy (parent_ref c) then parent_ref c else mother, children)
         else if tag \<in> set [''child'', ''child_ref'', ''children'']
         then (father, mother, children @ child_ref c)
         else st))"

definition scan_family :: "elem list \<Rightarrow> string option \<times> string option \<times> string list" where
  "scan_family cs = foldl family_field (None, None, []) cs"

definition parse_family :: "string \<Rightarrow> elem \<Rightarrow> error + family" where
  "parse_family h f =
     (case elem_to_dict f of
        Inl e \<Rightarrow> Inl e
      | Inr r \<Rightarrow>
          (case scan_family (el_children f) of
             (father, mother, children) \<Rightarrow>
               Inr \<lparr>f_handle = h, f_raw = r, f_father = father, f_mother = mother,
                    f_children = children\<rparr>))"

fun parse_families_from :: "families \<Rightarrow> elem list \<Rightarrow> error + families" where
  "parse_families_from out [] = Inr out"
| "parse_families_from out (f # rest) =
     (let h = handle_or (extract_handle f) ''family'' (length out) in
      case parse_family h f of
        Inl e \<Rightarrow> Inl e
      | Inr rec \<Rightarrow> parse_families_from (dict_set h rec out) rest)"

definition parse_families :: "elem list \<Rightarrow> error + families" where
  "parse_families family_elements = parse_families_from [] family_elements"

section \<open>Generic parser\<close>

fun parse_generic_from :: "objs \<Rightarrow> elem list \<Rightarrow> error + objs" where
  "parse_generic_from out [] = Inr out"
| "parse_generic_from out (el # rest) =
     (let h = handle_or (extract_handle el) ''obj'' (length out) in
      case elem_to_dict el of
        Inl e \<Rightarrow> Inl e
      | Inr r \<Rightarrow> parse_generic_from (dict_set h \<lparr>o_handle = h, o_raw = r, o_file = None\<rparr> out) rest)"

definition parse_generic :: "elem list \<Rightarrow> error + objs" where
  "parse_generic elements = parse_generic_from [] elements"

section \<open>Cross-linking\<close>

text \<open>
  The linking loop of \<open>convert\<close> runs on the two dictionaries; every assignment of the
  loop is an update of the state.
\<close>

record db =
  db_people :: people
  db_families :: families

text \<open>\<open>[x for x in (fam.get('father'), fam.get('mother')) if x]\<close>\<close>

definition present_parents :: "family \<Rightarrow> string list" where
  "present_parents fam = map the (filter truthy [f_father fam, f_mother fam])"

text \<open>The body of the loop over the children of one family.\<close>

definition link_child :: "string \<Rightarrow> family \<Rightarrow> db \<Rightarrow> string \<Rightarrow> db" where
  "link_child fh fam s ch =
     (case map_of (db_people s) ch of
        None \<Rightarrow> s
      | Some p \<Rightarrow>
          s\<lparr>db_people := dict_set ch
               (p\<lparr>p_families_as_child := Some fh,
                  p_parents := p_parents p @ present_parents fam\<rparr>) (db_people s)\<rparr>)"

text \<open>The body of the loop over \<open>(father, mother)\<close>.\<close>

definition link_parent :: "string \<Rightarrow> db \<Rightarrow> string option \<Rightarrow> db" where
  "link_parent fh s parent =
     (if truthy parent then
        (case map_of (db_people s) (the parent) of
           None \<Rightarrow> s
         | Some p \<Rightarrow>
             s\<lparr>db_people := dict_set (the parent)
                  (p\<lparr>p_families_as_parent := p_families_as_parent p @ [fh]\<rparr>) (db_people s)\<rparr>)
      else s)"

definition link_family :: "db \<Rightarrow> string \<times> family \<Rightarrow> db" where
  "link_family s item =
     (case item of (fh, fam) \<Rightarrow>
        foldl (link_parent fh) (foldl (link_child fh fam) s (f_children fam))
          [f_father fam, f_mother fam])"

definition cross_link :: "db \<Rightarrow> db" where
  "cross_link s = foldl link_family s (db_families s)"

section \<open>Tree synthesis\<close>

text \<open>
  A node of the tree is a Python dictionary, held by reference. The node of a known person
  is the object stored in \<open>node_cache\<close> under the handle, so a reference to it is the
  handle (\<open>PersonRef\<close>); the node of an unknown handle is a fresh dictionary with the
  display text only (\<open>Leaf\<close>). \<open>n_children = None\<close> is a node whose \<open>children\<close> key is
  not set yet.
\<close>

datatype node_ref = PersonRef string | Leaf string

record node =
  n_id :: string
  n_handle :: string
  n_name :: string
  n_title :: string
  n_person_handle :: string
  n_children :: "node_ref list option"

type_synonym node_cache = "(string \<times> node) list"

text \<open>The returned root: one node, or the synthetic node \<open>Roots\<close> with its children.\<close>

datatype tree_root = Single node_ref | Roots "node_ref list"

definition or_empty :: "string option \<Rightarrow> string" where
  "or_empty v = (case v of None \<Rightarrow> [] | Some s \<Rightarrow> s)"

text \<open>
  Every record made by \<open>parse_people\<close> has the keys \<open>names\<close> and \<open>handle\<close>, so the
  defaults of \<open>p.get\<close> are not taken.
\<close>

definition display_info :: "person \<Rightarrow> string \<times> string option" where
  "display_info p =
     (let primary = find (\<lambda>nm. truthy (nm_formatted nm)) (p_names p);
          primary = (case primary of
                       Some nm \<Rightarrow> Some nm
                     | None \<Rightarrow> (case p_names p of [] \<Rightarrow> None | nm # rest \<Rightarrow> Some nm));
          name = (case primary of
                    Some nm \<Rightarrow>
                      (if truthy (nm_formatted nm) then the (nm_formatted nm)
                       else strip (or_empty (nm_given nm) @ '' '' @ or_empty (nm_surname nm)))
                  | None \<Rightarrow> p_handle p)
      in (name, None))"

text \<open>The handles gathered from \<open>families_as_parent\<close>, before duplicates are dropped.\<close>

definition children_handles :: "families \<Rightarrow> person \<Rightarrow> string list" where
  "children_handles families p =
     concat (map (\<lambda>famh. case map_of families famh of
                            None \<Rightarrow> []
                          | Some fam \<Rightarrow> filter (\<lambda>ch. ch \<noteq> []) (f_children fam))
               (p_families_as_parent p))"

definition new_node :: "string \<Rightarrow> person \<Rightarrow> node" where
  "new_node handle p =
     (case display_info p of (name, title) \<Rightarrow>
        \<lparr>n_id = handle, n_handle = handle, n_name = name, n_title = or_empty title,
         n_person_handle = handle, n_children = None\<rparr>)"

text \<open>
  \<open>build_person_node\<close> and its loop over the gathered handles. The first argument bounds
  the depth of the nested calls for known, uncached persons: a call that would go deeper
  gives \<open>None\<close>.
\<close>

function build_person_node ::
    "nat \<Rightarrow> people \<Rightarrow> families \<Rightarrow> node_cache \<Rightarrow> string \<Rightarrow> (node_ref \<times> node_cache) option"
  and build_children ::
    "nat \<Rightarrow> people \<Rightarrow> families \<Rightarrow> node_cache \<Rightarrow> string set \<Rightarrow> string list \<Rightarrow>
       (node_ref list \<times> node_cache) option" where
  "build_person_node depth people families node_cache handle =
     (case map_of people handle of
        None \<Rightarrow> Some (Leaf (if handle = [] then ''<Unknown>'' else handle), node_cache)
      | Some p \<Rightarrow>
          (case map_of node_cache handle of
             Some cached \<Rightarrow> Some (PersonRef handle, node_cache)
           | None \<Rightarrow>
               (case depth of
                  0 \<Rightarrow> None
                | Suc d \<Rightarrow>
                    (case build_children d people families
                            (dict_set handle (new_node handle p) node_cache) {}
                            (children_handles families p) of
                       None \<Rightarrow> None
                     | Some (node_children, cache') \<Rightarrow>
                         Some (PersonRef handle,
                           dict_set handle ((new_node handle p)\<lparr>n_children := Some node_children\<rparr>)
                             cache')))))"
| "build_children depth people families node_cache seen [] = Some ([], node_cache)"
| "build_children depth people families node_cache seen (ch # rest) =
     (if ch = [] \<or> ch \<in> seen then build_children depth people families node_cache seen rest
      else
        (case build_person_node depth people families node_cache ch of
           None \<Rightarrow> None
         | Some (nd, cache') \<Rightarrow>
             (case build_children depth people families cache' (insert ch seen) rest of
                None \<Rightarrow> None
              | Some (nds, cache'') \<Rightarrow> Some (nd # nds, cache''))))"
  by pat_completeness auto
termination
  by (relation "measures [\<lambda>x. case x of Inl (d, _) \<Rightarrow> d | Inr (d, _) \<Rightarrow> d,
                          \<lambda>x. case x of Inl _ \<Rightarrow> 0 | Inr (_, _, _, _, _, chs) \<Rightarrow> Suc (length chs)]")
    auto

text \<open>\<open>[build_person_node(h) for h in roots]\<close>\<close>

fun build_roots ::
    "nat \<Rightarrow> people \<Rightarrow> families \<Rightarrow> node_cache \<Rightarrow> string list \<Rightarrow>
       (node_ref list \<times> node_cache) option" where
  "build_roots depth people families node_cache [] = Some ([], node_cache)"
| "build_roots depth people families node_cache (h # rest) =
     (case build_person_node depth people families node_cache h of
        None \<Rightarrow> None
      | Some (nd, cache') \<Rightarrow>
          (case build_roots depth people families cache' rest of
             None \<Rightarrow> None
           | Some (nds, cache'') \<Rightarrow> Some (nd # nds, cache'')))"

definition root_candidates :: "people \<Rightarrow> string list" where
  "root_candidates people =
     (let roots = map fst (filter (\<lambda>(h, p). \<not> truthy (p_families_as_child p)) people)
      in if roots = [] then take 1 (map fst people) else roots)"

text \<open>
  The result is the root together with the node cache, which holds the nodes that the
  references of the root stand for.
\<close>

definition build_treant_tree ::
    "nat \<Rightarrow> people \<Rightarrow> families \<Rightarrow> string option \<Rightarrow> (tree_root \<times> node_cache) option" where
  "build_treant_tree depth people families root_handle =
     (if truthy root_handle
      then map_option (\<lambda>(nd, cache). (Single nd, cache))
             (build_person_node depth people families [] (the root_handle))
      else
        (case root_candidates people of
           [h] \<Rightarrow> map_option (\<lambda>(nd, cache). (Single nd, cache))
                    (build_person_node depth people families [] h)
         | roots \<Rightarrow> map_option (\<lambda>(nds, cache). (Roots nds, cache))
                      (build_roots depth people families [] roots)))"

section \<open>Conversion\<close>

text \<open>
  \<open>convert\<close> from the parsed document root on. The media files written to disk are not
  part of the model, only the records made for them; the \<open>chart\<close> block of the tree is a
  constant and is left out.
\<close>

record composite =
  out_people :: people
  out_families :: families
  out_events :: objs
  out_places :: objs
  out_media :: objs
  out_sources :: objs
  out_citations :: objs
  out_repositories :: objs
  out_notes :: objs
  out_tags :: objs
  out_others :: objs
  out_tree :: "tree_root \<times> node_cache"

text \<open>\<open>os.path.basename\<close> and \<open>os.path.join\<close> on POSIX paths.\<close>

definition basename :: "string \<Rightarrow> string" where
  "basename path = rev (takeWhile (\<lambda>c. c \<noteq> CHR ''/'') (rev path))"

definition path_join :: "string \<Rightarrow> string \<Rightarrow> string" where
  "path_join a b =
     (if b \<noteq> [] \<and> hd b = CHR ''/'' then b
      else if a = [] \<or> last a = CHR ''/'' then a @ b
      else a @ ''/'' @ b)"

text \<open>The content of a media file: a byte string.\<close>

type_synonym bytes = "char list"

definition media_entry :: "string \<Rightarrow> objs \<Rightarrow> string \<times> bytes \<Rightarrow> objs" where
  "media_entry extract_media_dir media_out item =
     (case item of (member_name, data) \<Rightarrow>
        (let safe_name = basename member_name;
             out_path = path_join extract_media_dir safe_name
         in dict_set safe_name
              \<lparr>o_handle = safe_name, o_raw = [(''_attrs'', RAttrs [(''source_name'', member_name)])],
               o_file = Some out_path\<rparr> media_out))"

definition media_records :: "string option \<Rightarrow> (string \<times> bytes) list option \<Rightarrow> objs \<Rightarrow> objs" where
  "media_records extract_media_dir media_map media =
     (if truthy extract_media_dir \<and> media_map \<noteq> None \<and> media_map \<noteq> Some []
      then foldl (media_entry (the extract_media_dir)) [] (the media_map)
      else media)"

text \<open>The ten parser calls of \<open>convert\<close>, in their order; the first error ends them.\<close>

record parsed =
  ps_people :: people
  ps_families :: families
  ps_events :: objs
  ps_places :: objs
  ps_media :: objs
  ps_sources :: objs
  ps_citations :: objs
  ps_repositories :: objs
  ps_notes :: objs
  ps_tags :: objs

text \<open>\<open>pass_error r k\<close>: \<open>k\<close> goes on with the value of \<open>r\<close>; an error raised by \<open>r\<close> propagates.\<close>

definition pass_error :: "error + 'a \<Rightarrow> ('a \<Rightarrow> error + 'b) \<Rightarrow> error + 'b" where
  "pass_error r k = (case r of Inl e \<Rightarrow> Inl e | Inr v \<Rightarrow> k v)"

definition parse_buckets :: "buckets \<Rightarrow> error + parsed" where
  "parse_buckets b =
     pass_error (parse_people (b_people b)) (\<lambda>people.
     pass_error (parse_families (b_families b)) (\<lambda>families.
     pass_error (parse_generic (b_events b)) (\<lambda>events.
     pass_error (parse_generic (b_places b)) (\<lambda>places.
     pass_error (parse_generic (b_media b)) (\<lambda>media.
     pass_error (parse_generic (b_sources b)) (\<lambda>sources.
     pass_error (parse_generic (b_citations b)) (\<lambda>citations.
     pass_error (parse_generic (b_repositories b)) (\<lambda>repositories.
     pass_error (parse_generic (b_notes b)) (\<lambda>notes.
     pass_error (parse_generic (b_tags b)) (\<lambda>tags.
       Inr \<lparr>ps_people = people, ps_families = families, ps_events = events,
            ps_places = places, ps_media = media, ps_sources = sources,
            ps_citations = citations, ps_repositories = repositories, ps_notes = notes,
            ps_tags = tags\<rparr>))))))))))"

text \<open>
  The result is \<open>None\<close> when tree synthesis would nest deeper than \<open>depth\<close>, \<open>Some (Inl e)\<close>
  when a parser raises \<open>e\<close>, and the composite object otherwise.
\<close>

definition convert :: "nat \<Rightarrow> elem \<Rightarrow> (string \<times> bytes) list option \<Rightarrow> string option \<Rightarrow>
    string option \<Rightarrow> (error + composite) option" where
  "convert depth xml_root media_map extract_media_dir root_person =
     (case parse_buckets (collect_objects xml_root) of
        Inl e \<Rightarrow> Some (Inl e)
      | Inr ps \<Rightarrow>
          (let s = cross_link \<lparr>db_people = ps_people ps, db_families = ps_families ps\<rparr>;
               media_out = media_records extract_media_dir media_map (ps_media ps)
           in case build_treant_tree depth (db_people s) (db_families s) root_person of
                None \<Rightarrow> None
              | Some tree_root \<Rightarrow>
                  Some (Inr \<lparr>out_people = db_people s, out_families = db_families s,
                    out_events = ps_events ps, out_places = ps_places ps, out_media = media_out,
                    out_sources = ps_sources ps, out_citations = ps_citations ps,
                    out_repositories = ps_repositories ps, out_notes = ps_notes ps,
                    out_tags = ps_tags ps, out_others = [], out_tree = tree_root\<rparr>)))"

section \<open>The parsers in the words of the specification\<close>

text \<open>The proper descendants of an element, in document order.\<close>

definition descendants :: "elem \<Rightarrow> elem list" where
  "descendants c = concat (map iter (el_children c))"

definition is_child_ref :: "elem \<Rightarrow> bool" where
  "is_child_ref c = (strip_ns (el_tag c) \<in> set [''child'', ''child_ref'', ''children''])"

definition names_handle :: "elem \<Rightarrow> bool" where
  "names_handle d = (strip_ns (el_tag d) \<in> set [''handle'', ''ref''] \<and> nonblank (el_text d))"

text \<open>
  The resolution of a child reference by priority: the \<open>ref\<close> attribute; else the trimmed
  text of the first descendant with tag \<open>handle\<close> or \<open>ref\<close> and non-blank text; else the
  trimmed non-blank text of the element itself; else nothing.
\<close>

definition child_ref_spec :: "elem \<Rightarrow> string option" where
  "child_ref_spec c =
     (case map_of (el_attrib c) ''ref'' of
        Some r \<Rightarrow> Some r
      | None \<Rightarrow>
          (case find names_handle (descendants c) of
             Some d \<Rightarrow> Some (strip (the (el_text d)))
           | None \<Rightarrow> if nonblank (el_text c) then Some (strip (the (el_text c))) else None))"

text \<open>The synthesized handle \<open><kind>_<n>\<close> for a mapping that holds \<open>n - 1\<close> records.\<close>

definition synthesized :: "string \<Rightarrow> ('k \<times> 'v) list \<Rightarrow> string" where
  "synthesized kind out = kind @ ''_'' @ string_of_nat (length out + 1)"

text \<open>
  No child anywhere in the element has one of the keys \<open>_attrs\<close> and \<open>_text\<close> as its
  stripped tag.
\<close>

definition reserved_free :: "elem \<Rightarrow> bool" where
  "reserved_free e = list_all (\<lambda>c. child_key c \<notin> set [''_attrs'', ''_text'']) (descendants e)"

text \<open>Under every key other than the two reserved ones the dictionary holds a list.\<close>

definition lists_only :: "raw \<Rightarrow> bool" where
  "lists_only d =
     list_all (\<lambda>(k, v). k \<in> set [''_attrs'', ''_text''] \<or> (case v of RList cs \<Rightarrow> True | _ \<Rightarrow> False)) d"

text \<open>
  What one family adds to a person with handle \<open>k\<close>: to \<open>parents\<close>, the present parents of
  the family once for every occurrence of \<open>k\<close> among its children; to
  \<open>families_as_parent\<close>, the handle of the family once for the father and once for the
  mother, where that is \<open>k\<close>.
\<close>

definition parent_entries :: "string \<Rightarrow> family \<Rightarrow> string list" where
  "parent_entries k fam = concat (replicate (count_list (f_children fam) k) (present_parents fam))"

definition parent_links :: "string \<Rightarrow> string \<Rightarrow> family \<Rightarrow> string list" where
  "parent_links k fh fam =
     map (\<lambda>x. fh) (filter (\<lambda>x. truthy x \<and> the x = k) [f_father fam, f_mother fam])"

definition linked :: "string \<Rightarrow> person \<Rightarrow> string \<times> family \<Rightarrow> person" where
  "linked k p item =
     (case item of (fh, fam) \<Rightarrow>
        p\<lparr>p_families_as_child :=
             (if k \<in> set (f_children fam) then Some fh else p_families_as_child p),
          p_parents := p_parents p @ parent_entries k fam,
          p_families_as_parent := p_families_as_parent p @ parent_links k fh fam\<rparr>)"

text \<open>No person record of the mapping has an entry in \<open>children\<close>.\<close>

definition childless :: "people \<Rightarrow> bool" where
  "childless people = list_all (\<lambda>(h, p). p_children p = []) people"

text \<open>
  The reference that \<open>build_person_node\<close> returns for a handle: the cached node of a
  known person, or a leaf with the handle as display text.
\<close>

definition node_ref_of :: "people \<Rightarrow> string \<Rightarrow> node_ref" where
  "node_ref_of people handle =
     (case map_of people handle of
        None \<Rightarrow> Leaf (if handle = [] then ''<Unknown>'' else handle)
      | Some p \<Rightarrow> PersonRef handle)"

text \<open>The non-empty handles of a list without repetitions, the first occurrence kept.\<close>

definition first_occurrences :: "string list \<Rightarrow> string list" where
  "first_occurrences chs = rev (remdups (rev (filter (\<lambda>ch. ch \<noteq> []) chs)))"

text \<open>
  The tree that a reference unfolds to when every reference is replaced by the node it
  stands for, as a serializer of the returned root does; \<open>None\<close> when that nests deeper
  than \<open>n\<close> or meets a node that is not in the cache.
\<close>

datatype tree = Tree string "tree list"

fun tree_of :: "nat \<Rightarrow> node_cache \<Rightarrow> node_ref \<Rightarrow> tree option" where
  "tree_of n cache (Leaf name) = Some (Tree name [])"
| "tree_of 0 cache (PersonRef h) = None"
| "tree_of (Suc n) cache (PersonRef h) =
     (case map_of cache h of
        None \<Rightarrow> None
      | Some nd \<Rightarrow>
          (case n_children nd of
             None \<Rightarrow> None
           | Some kids \<Rightarrow> map_option (Tree (n_name nd)) (those (map (tree_of n cache) kids))))"

section \<open>Example inputs\<close>

text \<open>\<open><database><person handle="p"><_attrs/></person></database>\<close>\<close>

definition reserved_person :: elem where
  "reserved_person = Elem ''person'' [(''handle'', ''p'')] None [Elem ''_attrs'' [] None []]"

definition reserved_doc :: elem where
  "reserved_doc = Elem ''database'' [] None [reserved_person]"

text \<open>The record that \<open>parse_people\<close> makes for \<open><person handle="P1"/>\<close>.\<close>

definition nobody :: person where
  "nobody = \<lparr>p_handle = ''P1'', p_raw = [(''_attrs'', RAttrs [(''handle'', ''P1'')])],
     p_names = [\<lparr>nm_formatted = None, nm_given = None, nm_surname = None, nm_prefix = None,
                 nm_suffix = None, nm_raw = [(''_attrs'', RAttrs [(''handle'', ''P1'')])]\<rparr>],
     p_event_refs = [], p_attributes = [], p_parents = [], p_children = [],
     p_families_as_parent = [], p_families_as_child = None\<rparr>"

definition no_name :: name_entry where
  "no_name = \<lparr>nm_formatted = None, nm_given = None, nm_surname = None, nm_prefix = None,
     nm_suffix = None, nm_raw = []\<rparr>"

text \<open>\<open><database><event/><event/></database>\<close>\<close>

definition events_doc :: elem where
  "events_doc = Elem ''database'' [] None [Elem ''event'' [] None [], Elem ''event'' [] None []]"

text \<open>
  A family with a father given by attribute, a mother given by text, and four child
  references: by attribute, by a nested \<open>handle\<close> element, by text, and one that
  resolves to nothing.
\<close>

definition family_elem :: elem where
  "family_elem = Elem ''family'' [(''handle'', ''F'')] None
     [Elem ''father'' [(''ref'', ''A'')] None [],
      Elem ''mother'' [] (Some ''B'') [],
      Elem ''child'' [(''ref'', ''C'')] None [],
      Elem ''child'' [] None [Elem ''x'' [] None [Elem ''handle'' [] (Some '' D '') []]],
      Elem ''child'' [] (Some '' C '') [],
      Elem ''child'' [] None []]"

definition family_doc :: elem where
  "family_doc = Elem ''database'' [] None
     [Elem ''person'' [(''handle'', ''A'')] None [],
      Elem ''person'' [(''handle'', ''B'')] None [],
      Elem ''person'' [(''handle'', ''C'')] None [],
      family_elem]"

text \<open>Three people not linked yet, and one family with a repeated child.\<close>

definition blank_person :: "string \<Rightarrow> person" where
  "blank_person h = \<lparr>p_handle = h, p_raw = [], p_names = [no_name], p_event_refs = [],
     p_attributes = [], p_parents = [], p_children = [], p_families_as_parent = [],
     p_families_as_child = None\<rparr>"

definition small_family :: family where
  "small_family = \<lparr>f_handle = ''F'', f_raw = [], f_father = Some ''A'', f_mother = Some ''B'',
     f_children = [''C'', ''D'', ''C'']\<rparr>"

definition small_db :: db where
  "small_db = \<lparr>db_people = [(''A'', blank_person ''A''), (''B'', blank_person ''B''),
       (''C'', blank_person ''C'')],
     db_families = [(''F'', small_family)]\<rparr>"

text \<open>The composite object that \<open>convert\<close> returns for \<open>family_doc\<close>.\<close>

definition family_out :: composite where
  "family_out = projr (the (convert 3 family_doc None None None))"

text \<open>
  A person who is the father and a child of the same family:
  \<open><database><person handle="A"/><family handle="F"><father ref="A"/><child ref="A"/></family></database>\<close>,
  and the node cache that tree synthesis returns for it.
\<close>

definition self_parent_doc :: elem where
  "self_parent_doc = Elem ''database'' [] None
     [Elem ''person'' [(''handle'', ''A'')] None [],
      Elem ''family'' [(''handle'', ''F'')] None
        [Elem ''father'' [(''ref'', ''A'')] None [], Elem ''child'' [(''ref'', ''A'')] None []]]"

definition self_parent_cache :: node_cache where
  "self_parent_cache = [(''A'', \<lparr>n_id = ''A'', n_handle = ''A'', n_name = [], n_title = [],
     n_person_handle = ''A'', n_children = Some [PersonRef ''A'']\<rparr>)]"

section \<open>Properties\<close>

subsection \<open>Raw form\<close>

text \<open>
  C3. \<open>elem_to_dict\<close> is to return a raw form for every element tree, also when the
  stripped tag of a child is one of the reserved keys \<open>_attrs\<close> and \<open>_text\<close>. The recursion
  is structural, so it terminates; but on an element with an attribute and a child
  \<open>_attrs\<close> the child is appended to the attribute dictionary, which raises
  AttributeError, and \<open>convert\<close> raises with it.
\<close>

theorem elem_to_dict_reserved_key_raises:
  "elem_to_dict reserved_person = Inl AttributeError \<and>
   convert depth reserved_doc media_map extract_media_dir root_person = Some (Inl AttributeError)"
  by code_simp

theorem elem_to_dict_reserved_key_raises_witness:
  "elem_to_dict reserved_person = Inl AttributeError \<and>
   convert 1 reserved_doc None None None = Some (Inl AttributeError)"
  using elem_to_dict_reserved_key_raises [of 1 None None None] by simp

lemma setdefault_append_list:
  assumes "lists_only d" and "tag \<notin> set [''_attrs'', ''_text'']"
  shows "\<exists>d'. setdefault_append tag child_dict d = Inr d' \<and> lists_only d'"
proof (cases "map_of d tag")
  case None
  with assms show ?thesis
    by (simp add: setdefault_append_def lists_only_def)
next
  case (Some v)
  then have "(tag, v) \<in> set d"
    by (rule map_of_SomeD)
  with assms obtain cs where v: "v = RList cs"
    by (cases v) (auto simp: lists_only_def list_all_iff)
  have "lists_only (AList.update tag (RList (cs @ [child_dict])) d)"
    using assms(1) by (induction d) (auto simp: lists_only_def)
  with Some v show ?thesis
    by (simp add: setdefault_append_def dict_set_def)
qed

lemma descendants_Elem: "descendants (Elem t a x cs) = concat (map iter cs)"
  by (simp add: descendants_def)

lemma iter_descendants: "iter c = c # descendants c"
  by (cases c) (simp add: descendants_def)

text \<open>
  Where no child has a reserved key as its stripped tag, \<open>elem_to_dict\<close> returns a raw
  form: the failure above is the only one.
\<close>

lemma elem_to_dict_returns:
  "reserved_free e \<Longrightarrow> \<exists>r. elem_to_dict e = Inr r"
  "lists_only d \<Longrightarrow> list_all (\<lambda>c. child_key c \<notin> set [''_attrs'', ''_text''] \<and> reserved_free c) cs \<Longrightarrow>
     \<exists>r. add_children d cs = Inr r"
proof (induction e and d cs rule: elem_to_dict_add_children.induct)
  case (1 t a x cs)
  let ?d0 = "if a \<noteq> [] then [(''_attrs'', RAttrs a)] else []"
  let ?text = "if nonblank x then map_option strip x else None"
  let ?d1 = "if truthy ?text then ?d0 @ [(''_text'', RText (the ?text))] else ?d0"
  have "lists_only ?d1"
    by (simp add: lists_only_def)
  moreover from "1.prems" have "list_all (\<lambda>c. child_key c \<notin> set [''_attrs'', ''_text''] \<and> reserved_free c) cs"
    by (auto simp: reserved_free_def descendants_Elem iter_descendants list_all_iff)
  ultimately have "\<exists>r. add_children ?d1 cs = Inr r"
    by (rule "1.IH" [OF refl refl refl])
  then show ?case
    by (simp add: Let_def)
next
  case (2 d)
  then show ?case by simp
next
  case (3 d child cs)
  from "3.prems" have free: "reserved_free child"
    and key: "child_key child \<notin> set [''_attrs'', ''_text'']"
    and rest: "list_all (\<lambda>c. child_key c \<notin> set [''_attrs'', ''_text''] \<and> reserved_free c) cs"
    by simp_all
  from "3.IH"(1) [OF free] obtain child_dict where cd: "elem_to_dict child = Inr child_dict"
    by blast
  from setdefault_append_list [OF "3.prems"(1) key, of child_dict] obtain d'
    where d': "setdefault_append (child_key child) child_dict d = Inr d'" and ok: "lists_only d'"
    by blast
  from "3.IH"(2) [OF cd d' ok rest] cd d' show ?case
    by simp
qed

subsection \<open>Display text\<close>

text \<open>
  C5, as the code has it. The display text of a person is the formatted value of the
  first name entry whose formatted value is present and not empty; without such an entry
  it is the given name and the surname of the first name entry, joined with a space and
  trimmed; and the handle is taken only when the person has no name entry at all. A
  person whose first name entry has no formatted value and whose second has
  \<open>Jane Doe\<close> displays as \<open>Jane Doe\<close>.
\<close>

theorem display_info_text:
  "fst (display_info p) =
     (case find (\<lambda>nm. truthy (nm_formatted nm)) (p_names p) of
        Some nm \<Rightarrow> the (nm_formatted nm)
      | None \<Rightarrow>
          (case p_names p of
             [] \<Rightarrow> p_handle p
           | nm # rest \<Rightarrow> strip (or_empty (nm_given nm) @ '' '' @ or_empty (nm_surname nm)))) \<and>
   fst (display_info (p\<lparr>p_names := [n1\<lparr>nm_formatted := None\<rparr>,
      n2\<lparr>nm_formatted := Some ''Jane Doe''\<rparr>]\<rparr>)) = ''Jane Doe''"
proof
  show "fst (display_info p) =
     (case find (\<lambda>nm. truthy (nm_formatted nm)) (p_names p) of
        Some nm \<Rightarrow> the (nm_formatted nm)
      | None \<Rightarrow>
          (case p_names p of
             [] \<Rightarrow> p_handle p
           | nm # rest \<Rightarrow> strip (or_empty (nm_given nm) @ '' '' @ or_empty (nm_surname nm))))"
  proof (cases "find (\<lambda>nm. truthy (nm_formatted nm)) (p_names p)")
    case None
    then have "\<forall>nm \<in> set (p_names p). \<not> truthy (nm_formatted nm)"
      by (simp add: find_None_iff)
    with None show ?thesis
      by (cases "p_names p") (simp_all add: display_info_def)
  next
    case (Some nm)
    then have "truthy (nm_formatted nm)"
      by (auto simp: find_Some_iff)
    with Some show ?thesis
      by (simp add: display_info_def)
  qed
  show "fst (display_info (p\<lparr>p_names := [n1\<lparr>nm_formatted := None\<rparr>,
      n2\<lparr>nm_formatted := Some ''Jane Doe''\<rparr>]\<rparr>)) = ''Jane Doe''"
    by (simp add: display_info_def truthy_def)
qed

theorem display_info_text_witness:
  "fst (display_info (nobody\<lparr>p_names := [no_name\<lparr>nm_formatted := None\<rparr>,
      no_name\<lparr>nm_formatted := Some ''Jane Doe''\<rparr>]\<rparr>)) = ''Jane Doe''"
  using display_info_text [of nobody no_name no_name] by simp

text \<open>
  C5 as stated fails: a person whose only name entry has no formatted value, no given
  name and no surname displays as the empty string, not as the handle.
\<close>

theorem display_info_empty_not_handle:
  "find (\<lambda>nm. nm_formatted nm \<noteq> None) (p_names nobody) = None \<and>
   strip (or_empty (nm_given (hd (p_names nobody))) @ '' '' @
     or_empty (nm_surname (hd (p_names nobody)))) = [] \<and>
   fst (display_info nobody) = [] \<and> fst (display_info nobody) \<noteq> p_handle nobody"
  by code_simp

subsection \<open>Tree synthesis: the root\<close>

text \<open>
  C7, as the code has it. With an explicit root handle that is not empty and is not a key
  of the people mapping, \<open>build_treant_tree\<close> returns, at any depth bound, one leaf whose
  display text is the handle; it has no children and no node is cached.
\<close>

theorem build_treant_tree_unknown_root:
  "h \<noteq> [] \<Longrightarrow> map_of people h = None \<Longrightarrow>
   build_treant_tree depth people families (Some h) = Some (Single (Leaf h), [])"
  by (simp add: build_treant_tree_def truthy_def)

theorem build_treant_tree_unknown_root_witness:
  "''X'' \<noteq> [] \<and> map_of [(''P1'', nobody)] ''X'' = None \<and>
   build_treant_tree 0 [(''P1'', nobody)] [] (Some ''X'') = Some (Single (Leaf ''X''), [])"
  using build_treant_tree_unknown_root [of "''X''" "[(''P1'', nobody)]" 0 "[]"] by simp

text \<open>
  C7 as stated fails for the empty string: it is no key of the people mapping, but as a
  root handle it counts as not given, and the root is detected among the people; and the
  leaf that \<open>build_person_node\<close> itself makes for it displays \<open><Unknown>\<close>.
\<close>

theorem build_treant_tree_empty_root:
  "map_of [(''P1'', nobody)] [] = None \<and>
   build_treant_tree 1 [(''P1'', nobody)] [] (Some []) =
     Some (Single (PersonRef ''P1''),
       [(''P1'', \<lparr>n_id = ''P1'', n_handle = ''P1'', n_name = [], n_title = [],
          n_person_handle = ''P1'', n_children = Some []\<rparr>)]) \<and>
   build_treant_tree 1 [(''P1'', nobody)] [] (Some []) \<noteq> Some (Single (Leaf []), []) \<and>
   build_person_node 1 [(''P1'', nobody)] [] [] [] = Some (Leaf ''<Unknown>'', [])"
  by code_simp

text \<open>
  C8. With no person record and no root handle, \<open>build_treant_tree\<close> returns, at any
  depth bound, the synthetic node \<open>Roots\<close> with an empty list of children, and no other
  node.
\<close>

theorem build_treant_tree_no_people:
  "build_treant_tree depth [] families None = Some (Roots [], [])"
  by (simp add: build_treant_tree_def truthy_def root_candidates_def)

theorem build_treant_tree_no_people_witness:
  "build_treant_tree 0 [] [] None = Some (Roots [], [])"
  using build_treant_tree_no_people [of 0 "[]"] by simp

subsection \<open>Synthesized handles\<close>

lemma parse_generic_from_snoc:
  "parse_generic_from out (els @ [el]) =
     pass_error (parse_generic_from out els) (\<lambda>out'. parse_generic_from out' [el])"
  by (induction els arbitrary: out) (simp_all add: pass_error_def Let_def split: sum.splits)

lemma parse_people_from_snoc:
  "parse_people_from out (els @ [el]) =
     pass_error (parse_people_from out els) (\<lambda>out'. parse_people_from out' [el])"
  by (induction els arbitrary: out) (simp_all add: pass_error_def Let_def split: sum.splits)

lemma parse_families_from_snoc:
  "parse_families_from out (els @ [el]) =
     pass_error (parse_families_from out els) (\<lambda>out'. parse_families_from out' [el])"
  by (induction els arbitrary: out) (simp_all add: pass_error_def Let_def split: sum.splits)

lemma handle_child_None:
  "\<forall>c \<in> set cs. \<not> (strip_ns (el_tag c) \<in> set [''handle'', ''id''] \<and> nonblank (el_text c)) \<Longrightarrow>
   handle_child cs = None"
  by (induction cs) auto

lemma extract_handle_None:
  assumes "map_of (el_attrib el) ''handle'' = None" and "map_of (el_attrib el) ''id'' = None"
    and "\<forall>c \<in> set (el_children el).
           \<not> (strip_ns (el_tag c) \<in> set [''handle'', ''id''] \<and> nonblank (el_text c))"
  shows "extract_handle el = None"
  using assms by (simp add: extract_handle_def handle_child_None)

lemma parse_person_handle: "parse_person h el = Inr rec \<Longrightarrow> p_handle rec = h"
  by (auto simp: parse_person_def Let_def split: sum.splits)

lemma parse_family_handle: "parse_family h el = Inr rec \<Longrightarrow> f_handle rec = h"
  by (auto simp: parse_family_def split: sum.splits prod.splits)

lemma list_all_dict_set: "list_all P d \<Longrightarrow> P (k, v) \<Longrightarrow> list_all P (dict_set k v d)"
  by (induction d) (auto simp: dict_set_def)

text \<open>Every family is stored under its own handle.\<close>

lemma parse_families_from_keys:
  "parse_families_from out els = Inr out' \<Longrightarrow> list_all (\<lambda>(h, fam). f_handle fam = h) out \<Longrightarrow>
   list_all (\<lambda>(h, fam). f_handle fam = h) out'"
proof (induction els arbitrary: out)
  case Nil
  then show ?case by simp
next
  case (Cons f els)
  let ?h = "handle_or (extract_handle f) ''family'' (length out)"
  from Cons.prems(1) obtain rec where rec: "parse_family ?h f = Inr rec"
    and rest: "parse_families_from (dict_set ?h rec out) els = Inr out'"
    by (auto simp: Let_def split: sum.splits)
  have "list_all (\<lambda>(h, fam). f_handle fam = h) (dict_set ?h rec out)"
    using Cons.prems(2) parse_family_handle [OF rec] by (simp add: list_all_dict_set)
  with Cons.IH [OF rest] show ?case
    by simp
qed

lemma parse_families_keys:
  "parse_families els = Inr out \<Longrightarrow> (h, fam) \<in> set out \<Longrightarrow> f_handle fam = h"
  using parse_families_from_keys [of "[]" els out]
  by (auto simp: parse_families_def list_all_iff)

text \<open>
  C6, as the code has it. An element with no \<open>handle\<close> and no \<open>id\<close> attribute and no
  \<open>handle\<close> or \<open>id\<close> child with non-blank text is stored under a synthesized handle
  \<open><kind>_<n>\<close>, where the kind is \<open>person\<close> for people, \<open>family\<close> for families and \<open>obj\<close>
  for every other category, and \<open>n\<close> is one more than the number of records that the
  mapping of the category holds when the element is reached. The record carries the
  synthesized handle (\<open>parse_person_handle\<close>, \<open>parse_family_handle\<close>).
\<close>

theorem synthesized_handle:
  assumes "map_of (el_attrib el) ''handle'' = None" and "map_of (el_attrib el) ''id'' = None"
    and "\<forall>c \<in> set (el_children el).
           \<not> (strip_ns (el_tag c) \<in> set [''handle'', ''id''] \<and> nonblank (el_text c))"
  shows "parse_people (els @ [el]) =
           pass_error (parse_people els) (\<lambda>out.
           pass_error (parse_person (synthesized ''person'' out) el) (\<lambda>rec.
             Inr (dict_set (synthesized ''person'' out) rec out))) \<and>
         parse_families (els @ [el]) =
           pass_error (parse_families els) (\<lambda>out.
           pass_error (parse_family (synthesized ''family'' out) el) (\<lambda>rec.
             Inr (dict_set (synthesized ''family'' out) rec out))) \<and>
         parse_generic (els @ [el]) =
           pass_error (parse_generic els) (\<lambda>out.
           pass_error (elem_to_dict el) (\<lambda>r.
             Inr (dict_set (synthesized ''obj'' out)
               \<lparr>o_handle = synthesized ''obj'' out, o_raw = r, o_file = None\<rparr> out)))"
proof -
  have h: "extract_handle el = None"
    using assms by (rule extract_handle_None)
  have "parse_people (els @ [el]) =
           pass_error (parse_people els) (\<lambda>out.
           pass_error (parse_person (synthesized ''person'' out) el) (\<lambda>rec.
             Inr (dict_set (synthesized ''person'' out) rec out)))"
    by (simp add: parse_people_def parse_people_from_snoc h handle_or_def synthesized_def
        pass_error_def Let_def split: sum.splits)
  moreover have "parse_families (els @ [el]) =
           pass_error (parse_families els) (\<lambda>out.
           pass_error (parse_family (synthesized ''family'' out) el) (\<lambda>rec.
             Inr (dict_set (synthesized ''family'' out) rec out)))"
    by (simp add: parse_families_def parse_families_from_snoc h handle_or_def synthesized_def
        pass_error_def Let_def split: sum.splits)
  moreover have "parse_generic (els @ [el]) =
           pass_error (parse_generic els) (\<lambda>out.
           pass_error (elem_to_dict el) (\<lambda>r.
             Inr (dict_set (synthesized ''obj'' out)
               \<lparr>o_handle = synthesized ''obj'' out, o_raw = r, o_file = None\<rparr> out)))"
    by (simp add: parse_generic_def parse_generic_from_snoc h handle_or_def synthesized_def
        pass_error_def Let_def split: sum.splits)
  ultimately show ?thesis by simp
qed

text \<open>An event without identity that follows one event with a handle is \<open>obj_2\<close>.\<close>

theorem synthesized_handle_witness:
  "parse_generic ([Elem ''event'' [(''handle'', ''e1'')] None []] @ [Elem ''event'' [] None []]) =
     Inr [(''e1'', \<lparr>o_handle = ''e1'', o_raw = [(''_attrs'', RAttrs [(''handle'', ''e1'')])],
                   o_file = None\<rparr>),
          (''obj_2'', \<lparr>o_handle = ''obj_2'', o_raw = [], o_file = None\<rparr>)]"
proof -
  have "parse_generic [Elem ''event'' [(''handle'', ''e1'')] None []] =
      Inr [(''e1'', \<lparr>o_handle = ''e1'', o_raw = [(''_attrs'', RAttrs [(''handle'', ''e1'')])],
                    o_file = None\<rparr>)]"
    by code_simp
  moreover have "elem_to_dict (Elem ''event'' [] None []) = Inr []"
    by code_simp
  moreover have "string_of_nat (Suc (Suc 0)) = ''2''"
    by code_simp
  then have "synthesized ''obj'' [(''e1'', x)] = ''obj_2''" for x :: obj
    by (simp add: synthesized_def)
  ultimately show ?thesis
    using synthesized_handle [of "Elem ''event'' [] None []"
        "[Elem ''event'' [(''handle'', ''e1'')] None []]"]
    by (simp add: pass_error_def dict_set_def)
qed

text \<open>
  C6 as stated fails: the two events of \<open>events_doc\<close> have no identity, and their handles
  are \<open>obj_1\<close> and \<open>obj_2\<close>, named neither after the category nor after its singular.
\<close>

theorem events_handles_not_of_category:
  "map_option (map_sum id (map fst \<circ> out_events)) (convert 0 events_doc None None None) =
     Some (Inr [''obj_1'', ''obj_2'']) \<and>
   ''events_1'' \<notin> set [''obj_1'', ''obj_2''] \<and> ''event_1'' \<notin> set [''obj_1'', ''obj_2'']"
  by code_simp

subsection \<open>Child references of a family\<close>

lemma find_handle_find:
  "find_handle ds = map_option (\<lambda>d. strip (the (el_text d))) (find names_handle ds)"
  by (induction ds) (auto simp: names_handle_def nonblank_def truthy_def split: option.splits)

lemma child_ref_by_priority:
  assumes "is_child_ref c"
  shows "child_ref c = (case child_ref_spec c of Some r \<Rightarrow> [r] | None \<Rightarrow> [])"
proof (cases "map_of (el_attrib c) ''ref''")
  case (Some r)
  then show ?thesis
    by (simp add: child_ref_def child_ref_spec_def)
next
  case no_ref: None
  from assms have "\<not> names_handle c"
    by (auto simp: is_child_ref_def names_handle_def)
  then have fh: "find_handle (iter c) =
      map_option (\<lambda>d. strip (the (el_text d))) (find names_handle (descendants c))"
    by (simp add: find_handle_find iter_descendants)
  show ?thesis
  proof (cases "find names_handle (descendants c)")
    case None
    with no_ref fh show ?thesis
      by (simp add: child_ref_def child_ref_spec_def truthy_def)
  next
    case (Some d)
    then have "names_handle d"
      by (auto simp: find_Some_iff)
    then have "strip (the (el_text d)) \<noteq> []"
      by (auto simp: names_handle_def nonblank_def truthy_def split: option.splits)
    with no_ref fh Some show ?thesis
      by (simp add: child_ref_def child_ref_spec_def truthy_def)
  qed
qed

lemma family_field_children:
  "snd (snd (family_field st c)) =
     snd (snd st) @ (if is_child_ref c then child_ref c else [])"
  by (cases st) (auto simp: family_field_def is_child_ref_def Let_def)

lemma scan_children:
  "snd (snd (foldl family_field st cs)) =
     snd (snd st) @ concat (map child_ref (filter is_child_ref cs))"
  by (induction cs arbitrary: st) (simp_all add: family_field_children)

lemma scan_family_children:
  "snd (snd (scan_family cs)) = List.map_filter child_ref_spec (filter is_child_ref cs)"
proof -
  have "concat (map child_ref (filter is_child_ref cs)) =
      List.map_filter child_ref_spec (filter is_child_ref cs)"
    by (induction cs) (auto simp: child_ref_by_priority List.map_filter_simps split: option.splits)
  then show ?thesis
    by (simp add: scan_family_def scan_children)
qed

lemma parse_family_children:
  "parse_family h f = Inr fam \<Longrightarrow>
   f_children fam = List.map_filter child_ref_spec (filter is_child_ref (el_children f))"
  using scan_family_children [of "el_children f"]
  by (auto simp: parse_family_def split: sum.splits prod.splits)

lemma parse_family_total:
  "elem_to_dict f = Inr r \<Longrightarrow> \<exists>fam. parse_family h f = Inr fam"
  by (auto simp: parse_family_def split: sum.splits prod.splits)

lemma parse_families_last:
  assumes "parse_families (fs @ [f]) = Inr out"
  shows "\<exists>h fam. map_of out h = Some fam \<and> parse_family h f = Inr fam"
  using assms
  by (auto simp: parse_families_def parse_families_from_snoc pass_error_def Let_def dict_set_def
      update_conv' split: sum.splits)

text \<open>
  C4. \<open>parse_families\<close> raises for a family element only if \<open>elem_to_dict\<close> does, and the
  record of the family processed last holds, as its children, what the child-reference
  elements among the children of the family element resolve to, in their order: the
  \<open>ref\<close> attribute; else the trimmed text of the first descendant with tag \<open>handle\<close> or
  \<open>ref\<close> and non-blank text; else the trimmed non-blank text of the element; and no entry
  for a reference where all three fail.
\<close>

theorem child_reference_resolution:
  "(elem_to_dict f = Inr r \<longrightarrow> (\<exists>fam. parse_family h f = Inr fam)) \<and>
   (parse_families (fs @ [f]) = Inr out \<longrightarrow>
      (\<exists>h fam. map_of out h = Some fam \<and> f_handle fam = h \<and>
         f_children fam = List.map_filter child_ref_spec (filter is_child_ref (el_children f))))"
  using parse_family_total parse_families_last parse_family_children parse_family_handle
  by blast

theorem child_reference_resolution_witness:
  "(\<exists>fam. parse_family ''F'' family_elem = Inr fam) \<and>
   (\<exists>h fam. map_of (projr (parse_families ([] @ [family_elem]))) h = Some fam \<and>
      f_handle fam = h \<and> f_children fam = [''C'', ''D'', ''C''])"
proof -
  have "elem_to_dict family_elem = Inr (projr (elem_to_dict family_elem))"
    by code_simp
  moreover have "parse_families ([] @ [family_elem]) =
      Inr (projr (parse_families ([] @ [family_elem])))"
    by code_simp
  moreover have "List.map_filter child_ref_spec (filter is_child_ref (el_children family_elem)) =
      [''C'', ''D'', ''C'']"
    by code_simp
  ultimately show ?thesis
    using child_reference_resolution [of family_elem "projr (elem_to_dict family_elem)" "''F''"
        "[]" "projr (parse_families ([] @ [family_elem]))"]
    by simp
qed

subsection \<open>Cross-linking\<close>

lemma people_after_link_child:
  "map_of (db_people (link_child fh fam s ch)) k =
     (if k = ch
      then map_option (\<lambda>p. p\<lparr>p_families_as_child := Some fh,
             p_parents := p_parents p @ present_parents fam\<rparr>) (map_of (db_people s) k)
      else map_of (db_people s) k)"
  by (auto simp: link_child_def dict_set_def update_conv' split: option.splits)

lemma families_after_link_child: "db_families (link_child fh fam s ch) = db_families s"
  by (simp add: link_child_def split: option.splits)

lemma keys_after_link_child: "map fst (db_people (link_child fh fam s ch)) = map fst (db_people s)"
  by (auto simp: link_child_def dict_set_def update_keys map_of_eq_None_iff [symmetric] 
      simp del: map_of_eq_None_iff split: option.splits)

lemma people_after_link_parent:
  "map_of (db_people (link_parent fh s parent)) k =
     (if truthy parent \<and> the parent = k
      then map_option (\<lambda>p. p\<lparr>p_families_as_parent := p_families_as_parent p @ [fh]\<rparr>)
             (map_of (db_people s) k)
      else map_of (db_people s) k)"
  by (auto simp: link_parent_def dict_set_def update_conv' split: option.splits)

lemma families_after_link_parent: "db_families (link_parent fh s parent) = db_families s"
  by (simp add: link_parent_def split: option.splits)

lemma keys_after_link_parent: "map fst (db_people (link_parent fh s parent)) = map fst (db_people s)"
  by (auto simp: link_parent_def dict_set_def update_keys map_of_eq_None_iff [symmetric] 
      simp del: map_of_eq_None_iff split: option.splits)


lemma people_after_children:
  "map_of (db_people (foldl (link_child fh fam) s chs)) k =
     map_option (\<lambda>p. p\<lparr>p_families_as_child := (if k \<in> set chs then Some fh else p_families_as_child p),
             p_parents := p_parents p @ concat (replicate (count_list chs k) (present_parents fam))\<rparr>)
       (map_of (db_people s) k)"
proof (induction chs arbitrary: s)
  case Nil
  then show ?case by (simp add: option.map_ident)
next
  case (Cons ch chs)
  show ?case
    by (simp add: Cons.IH people_after_link_child option.map_comp o_def cong: if_cong)
qed

lemma people_after_parents:
  "map_of (db_people (link_parent fh (link_parent fh s (f_father fam)) (f_mother fam))) k =
     map_option (\<lambda>p. p\<lparr>p_families_as_parent := p_families_as_parent p @ parent_links k fh fam\<rparr>)
       (map_of (db_people s) k)"
  by (simp add: people_after_link_parent parent_links_def option.map_comp o_def option.map_ident)

lemma people_after_link_family:
  "map_of (db_people (link_family s item)) k =
     map_option (\<lambda>p. linked k p item) (map_of (db_people s) k)"
  by (cases item)
    (simp add: link_family_def people_after_parents people_after_children option.map_comp o_def
      linked_def parent_entries_def)

lemma people_after_link_families:
  "map_of (db_people (foldl link_family s fams)) k =
     map_option (\<lambda>p. foldl (linked k) p fams) (map_of (db_people s) k)"
  by (induction fams arbitrary: s)
    (simp_all add: people_after_link_family option.map_comp o_def option.map_ident)

lemma families_after_link_family: "db_families (link_family s item) = db_families s"
proof -
  have a: "db_families (foldl (link_child fh fam) s chs) = db_families s" for fh fam s chs
    by (induction chs arbitrary: s) (simp_all add: families_after_link_child)
  have b: "db_families (foldl (link_parent fh) s ps) = db_families s" for fh s ps
    by (induction ps arbitrary: s) (simp_all add: families_after_link_parent)
  show ?thesis
    by (cases item) (simp add: link_family_def a b del: foldl.simps)
qed

lemma keys_after_link_family: "map fst (db_people (link_family s item)) = map fst (db_people s)"
proof -
  have a: "map fst (db_people (foldl (link_child fh fam) s chs)) = map fst (db_people s)" for fh fam s chs
    by (induction chs arbitrary: s) (simp_all add: keys_after_link_child)
  have b: "map fst (db_people (foldl (link_parent fh) s ps)) = map fst (db_people s)" for fh s ps
    by (induction ps arbitrary: s) (simp_all add: keys_after_link_parent)
  show ?thesis
    by (cases item) (simp add: link_family_def a b del: foldl.simps)
qed

lemma families_after_link_families: "db_families (foldl link_family s fams) = db_families s"
  by (induction fams arbitrary: s) (simp_all add: families_after_link_family)

lemma keys_after_link_families: "map fst (db_people (foldl link_family s fams)) = map fst (db_people s)"
  by (induction fams arbitrary: s) (simp_all add: keys_after_link_family)

lemma linked_parents:
  "p_parents (foldl (linked k) p fams) =
     p_parents p @ concat (map (\<lambda>(fh, fam). parent_entries k fam) fams)"
  by (induction fams arbitrary: p) (auto simp: linked_def)

lemma linked_families_as_parent:
  "p_families_as_parent (foldl (linked k) p fams) =
     p_families_as_parent p @ concat (map (\<lambda>(fh, fam). parent_links k fh fam) fams)"
  by (induction fams arbitrary: p) (auto simp: linked_def)

lemma linked_children: "p_children (foldl (linked k) p fams) = p_children p"
  by (induction fams arbitrary: p) (auto simp: linked_def)

lemma linked_families_as_child:
  "p_families_as_child (foldl (linked k) p fams) =
     (case filter (\<lambda>(fh, fam). k \<in> set (f_children fam)) fams of
        [] \<Rightarrow> p_families_as_child p
      | x # xs \<Rightarrow> Some (fst (last (x # xs))))"
  by (induction fams rule: rev_induct) (auto simp: linked_def split: list.splits)


text \<open>
  C1. After the linking loop, for every family \<open>F\<close> with handle \<open>fh\<close> among the families:
  a child handle \<open>H\<close> of \<open>F\<close> that is a key of the people mapping has, as
  \<open>families_as_child\<close>, the handle of the last family among whose children it is; its
  \<open>parents\<close> are extended, family by family in their order, with the present father and
  mother of the family (father first), once for every occurrence of \<open>H\<close> among the
  children of that family and without removing duplicates, so that the present parents
  of \<open>F\<close> stand one after the other in it; a present father or mother handle of \<open>F\<close>
  that is a key of the people mapping has \<open>fh\<close> in its \<open>families_as_parent\<close>; and the
  keys of the people mapping are the same as before, in the same order.
\<close>

theorem cross_link_children_and_parents:
  assumes F: "(fh, F) \<in> set (db_families s)"
  shows "(\<forall>H p. H \<in> set (f_children F) \<longrightarrow> map_of (db_people s) H = Some p \<longrightarrow>
            (\<exists>p'. map_of (db_people (cross_link s)) H = Some p' \<and>
               p_families_as_child p' =
                 Some (fst (last (filter (\<lambda>(k, f). H \<in> set (f_children f)) (db_families s)))) \<and>
               p_parents p' =
                 p_parents p @ concat (map (\<lambda>(k, f). parent_entries H f) (db_families s)) \<and>
               (\<exists>before after. p_parents p' = p_parents p @ before @ present_parents F @ after))) \<and>
         (\<forall>P q. P \<in> set (present_parents F) \<longrightarrow> map_of (db_people s) P = Some q \<longrightarrow>
            (\<exists>q'. map_of (db_people (cross_link s)) P = Some q' \<and>
               p_families_as_parent q' =
                 p_families_as_parent q @ concat (map (\<lambda>(k, f). parent_links P k f) (db_families s)) \<and>
               fh \<in> set (p_families_as_parent q'))) \<and>
         map fst (db_people (cross_link s)) = map fst (db_people s)"
proof -
  let ?fams = "db_families s"
  from F obtain xs ys where split: "?fams = xs @ (fh, F) # ys"
    by (auto simp: in_set_conv_decomp)
  have child: "\<exists>p'. map_of (db_people (cross_link s)) H = Some p' \<and>
               p_families_as_child p' =
                 Some (fst (last (filter (\<lambda>(k, f). H \<in> set (f_children f)) ?fams))) \<and>
               p_parents p' = p_parents p @ concat (map (\<lambda>(k, f). parent_entries H f) ?fams) \<and>
               (\<exists>before after. p_parents p' = p_parents p @ before @ present_parents F @ after)"
    if H: "H \<in> set (f_children F)" and p: "map_of (db_people s) H = Some p" for H p
  proof -
    let ?p' = "foldl (linked H) p ?fams"
    have look: "map_of (db_people (cross_link s)) H = Some ?p'"
      by (simp add: cross_link_def people_after_link_families p)
    have "filter (\<lambda>(k, f). H \<in> set (f_children f)) ?fams \<noteq> []"
      using F H by (auto simp: filter_empty_conv)
    then have fac: "p_families_as_child ?p' =
        Some (fst (last (filter (\<lambda>(k, f). H \<in> set (f_children f)) ?fams)))"
      by (simp add: linked_families_as_child split: list.splits)
    have par: "p_parents ?p' = p_parents p @ concat (map (\<lambda>(k, f). parent_entries H f) ?fams)"
      by (rule linked_parents)
    from H obtain n where "count_list (f_children F) H = Suc n"
      by (cases "count_list (f_children F) H") (auto simp: count_list_0_iff)
    then have "parent_entries H F = present_parents F @ concat (replicate n (present_parents F))"
      by (simp add: parent_entries_def)
    with split have "concat (map (\<lambda>(k, f). parent_entries H f) ?fams) =
        concat (map (\<lambda>(k, f). parent_entries H f) xs) @ present_parents F @
        (concat (replicate n (present_parents F)) @ concat (map (\<lambda>(k, f). parent_entries H f) ys))"
      by simp
    with par have "\<exists>before after. p_parents ?p' = p_parents p @ before @ present_parents F @ after"
      by metis
    with look fac par show ?thesis
      by blast
  qed
  have parent: "\<exists>q'. map_of (db_people (cross_link s)) P = Some q' \<and>
               p_families_as_parent q' =
                 p_families_as_parent q @ concat (map (\<lambda>(k, f). parent_links P k f) ?fams) \<and>
               fh \<in> set (p_families_as_parent q')"
    if P: "P \<in> set (present_parents F)" and q: "map_of (db_people s) P = Some q" for P q
  proof -
    let ?q' = "foldl (linked P) q ?fams"
    have look: "map_of (db_people (cross_link s)) P = Some ?q'"
      by (simp add: cross_link_def people_after_link_families q)
    have fap: "p_families_as_parent ?q' =
        p_families_as_parent q @ concat (map (\<lambda>(k, f). parent_links P k f) ?fams)"
      by (rule linked_families_as_parent)
    from P have "fh \<in> set (parent_links P fh F)"
      by (auto simp: present_parents_def parent_links_def split: if_splits)
    with split fap have "fh \<in> set (p_families_as_parent ?q')"
      by simp
    with look fap show ?thesis
      by blast
  qed
  have keys: "map fst (db_people (cross_link s)) = map fst (db_people s)"
    by (simp add: cross_link_def keys_after_link_families)
  from child parent keys show ?thesis
    by blast
qed

theorem cross_link_children_and_parents_witness:
  "(\<exists>p'. map_of (db_people (cross_link small_db)) ''C'' = Some p' \<and>
      p_families_as_child p' = Some ''F'' \<and> p_parents p' = [''A'', ''B'', ''A'', ''B'']) \<and>
   (\<exists>q'. map_of (db_people (cross_link small_db)) ''B'' = Some q' \<and>
      p_families_as_parent q' = [''F'']) \<and>
   map fst (db_people (cross_link small_db)) = [''A'', ''B'', ''C'']"
proof -
  have F: "(''F'', small_family) \<in> set (db_families small_db)"
    by code_simp
  have H: "''C'' \<in> set (f_children small_family)"
    by code_simp
  have p: "map_of (db_people small_db) ''C'' = Some (blank_person ''C'')"
    by code_simp
  have P: "''B'' \<in> set (present_parents small_family)"
    by code_simp
  have q: "map_of (db_people small_db) ''B'' = Some (blank_person ''B'')"
    by code_simp
  have e1: "fst (last (filter (\<lambda>(k, f). ''C'' \<in> set (f_children f)) (db_families small_db))) = ''F''"
    by code_simp
  have e2: "p_parents (blank_person ''C'') @
      concat (map (\<lambda>(k, f). parent_entries ''C'' f) (db_families small_db)) =
      [''A'', ''B'', ''A'', ''B'']"
    by code_simp
  have e3: "p_families_as_parent (blank_person ''B'') @
      concat (map (\<lambda>(k, f). parent_links ''B'' k f) (db_families small_db)) = [''F'']"
    by code_simp
  have e4: "map fst (db_people small_db) = [''A'', ''B'', ''C'']"
    by code_simp
  from cross_link_children_and_parents [OF F] H p P q e1 e2 e3 e4 show ?thesis
    by metis
qed

subsection \<open>What linking leaves as it is\<close>

lemma convert_result:
  assumes "convert depth xml_root media_map extract_media_dir root_person = Some (Inr out)"
  shows "\<exists>people families.
           parse_people (b_people (collect_objects xml_root)) = Inr people \<and>
           parse_families (b_families (collect_objects xml_root)) = Inr families \<and>
           out_people out = db_people (cross_link \<lparr>db_people = people, db_families = families\<rparr>) \<and>
           out_families out =
             db_families (cross_link \<lparr>db_people = people, db_families = families\<rparr>)"
proof -
  from assms obtain ps where ps: "parse_buckets (collect_objects xml_root) = Inr ps"
    and people: "out_people out =
      db_people (cross_link \<lparr>db_people = ps_people ps, db_families = ps_families ps\<rparr>)"
    and families: "out_families out =
      db_families (cross_link \<lparr>db_people = ps_people ps, db_families = ps_families ps\<rparr>)"
    by (auto simp: convert_def Let_def split: sum.splits option.splits)
  from ps have "parse_people (b_people (collect_objects xml_root)) = Inr (ps_people ps)"
    and "parse_families (b_families (collect_objects xml_root)) = Inr (ps_families ps)"
    by (auto simp: parse_buckets_def pass_error_def split: sum.splits)
  with people families show ?thesis
    by blast
qed

lemma family_doc_converts: "convert 3 family_doc None None None = Some (Inr family_out)"
  unfolding family_out_def by code_simp

text \<open>
  C9. The linking loop leaves the families mapping as it is, so the families of the
  composite object are the records that \<open>parse_families\<close> made.
\<close>

theorem families_not_touched:
  "db_families (cross_link s) = db_families s \<and>
   (convert depth xml_root media_map extract_media_dir root_person = Some (Inr out) \<longrightarrow>
      parse_families (b_families (collect_objects xml_root)) = Inr (out_families out))"
proof -
  have frame: "db_families (cross_link s) = db_families s" for s
    by (simp add: cross_link_def families_after_link_families)
  then show ?thesis
    by (auto dest!: convert_result)
qed

theorem families_not_touched_witness:
  "db_families (cross_link small_db) = db_families small_db \<and>
   parse_families (b_families (collect_objects family_doc)) = Inr (out_families family_out)"
  using families_not_touched [of small_db 3 family_doc None None None family_out]
    family_doc_converts
  by simp

lemma childless_dict_set:
  "childless people \<Longrightarrow> p_children p = [] \<Longrightarrow> childless (dict_set h p people)"
  by (induction people) (auto simp: childless_def dict_set_def)

lemma childless_lookup: "childless people \<Longrightarrow> map_of people h = Some p \<Longrightarrow> p_children p = []"
  by (auto simp: childless_def list_all_iff dest: map_of_SomeD)

lemma parse_person_childless: "parse_person h el = Inr rec \<Longrightarrow> p_children rec = []"
  by (auto simp: parse_person_def Let_def split: sum.splits)

lemma parse_people_from_childless:
  "parse_people_from out els = Inr out' \<Longrightarrow> childless out \<Longrightarrow> childless out'"
  by (induction els arbitrary: out)
    (auto simp: Let_def childless_dict_set parse_person_childless split: sum.splits)

lemma link_child_childless:
  "childless (db_people s) \<Longrightarrow> childless (db_people (link_child fh fam s ch))"
  by (auto simp: link_child_def childless_dict_set childless_lookup split: option.splits)

lemma link_parent_childless:
  "childless (db_people s) \<Longrightarrow> childless (db_people (link_parent fh s parent))"
  by (auto simp: link_parent_def childless_dict_set childless_lookup split: option.splits)

lemma link_family_childless:
  assumes "childless (db_people s)"
  shows "childless (db_people (link_family s item))"
proof -
  have a: "childless (db_people s) \<Longrightarrow> childless (db_people (foldl (link_child fh fam) s chs))"
    for fh fam s chs
    by (induction chs arbitrary: s) (simp_all add: link_child_childless)
  have b: "childless (db_people s) \<Longrightarrow> childless (db_people (foldl (link_parent fh) s ps))"
    for fh s ps
    by (induction ps arbitrary: s) (simp_all add: link_parent_childless)
  from assms show ?thesis
    by (cases item) (simp add: link_family_def a b del: foldl.simps)
qed

lemma cross_link_childless:
  "childless (db_people s) \<Longrightarrow> childless (db_people (cross_link s))"
proof -
  have "childless (db_people s) \<Longrightarrow> childless (db_people (foldl link_family s fams))" for fams
    by (induction fams arbitrary: s) (simp_all add: link_family_childless)
  then show "childless (db_people s) \<Longrightarrow> childless (db_people (cross_link s))"
    by (simp add: cross_link_def)
qed

text \<open>
  C10. Every person record of the composite object has an empty \<open>children\<close> field:
  \<open>parse_people\<close> makes it empty and linking does not write to it.
\<close>

theorem person_children_empty:
  assumes "convert depth xml_root media_map extract_media_dir root_person = Some (Inr out)"
    and "(h, p) \<in> set (out_people out)"
  shows "p_children p = []"
proof -
  from assms(1) obtain people families
    where people: "parse_people (b_people (collect_objects xml_root)) = Inr people"
      and out: "out_people out =
        db_people (cross_link \<lparr>db_people = people, db_families = families\<rparr>)"
    by (auto dest: convert_result)
  from people have "childless people"
    by (auto simp: parse_people_def childless_def dest: parse_people_from_childless)
  then have "childless (out_people out)"
    by (simp add: out cross_link_childless)
  with assms(2) show ?thesis
    by (auto simp: childless_def list_all_iff)
qed

theorem person_children_empty_witness:
  "(''C'', the (map_of (out_people family_out) ''C'')) \<in> set (out_people family_out) \<and>
   p_children (the (map_of (out_people family_out) ''C'')) = []"
proof -
  have "(''C'', the (map_of (out_people family_out) ''C'')) \<in> set (out_people family_out)"
    unfolding family_out_def by code_simp
  with person_children_empty [OF family_doc_converts] show ?thesis
    by blast
qed

subsection \<open>Tree synthesis: termination and children\<close>

text \<open>
  Tree synthesis returns when the depth bound is at least the number of person records:
  every nested call for a known, uncached handle has put one more handle into the cache.
\<close>

declare build_person_node.simps [simp del]

lemma keys_dict_set: "fst ` set (dict_set k v d) = insert k (fst ` set d)"
  by (simp add: dict_set_def dom_update)

lemma unvisited_mono:
  assumes "fst ` set cache \<subseteq> fst ` set cache'"
  shows "card (fst ` set people - fst ` set cache') \<le> card (fst ` set (people :: people) - fst ` set (cache :: node_cache))"
  using assms by (intro card_mono) auto

lemma build_children_returns:
  assumes step: "\<And>cache h. card (fst ` set people - fst ` set cache) \<le> depth \<Longrightarrow>
      \<exists>nd cache'. build_person_node depth people families cache h = Some (nd, cache') \<and>
        fst ` set cache \<subseteq> fst ` set cache'"
    and "card (fst ` set people - fst ` set cache) \<le> depth"
  shows "\<exists>nds cache'. build_children depth people families cache seen chs = Some (nds, cache') \<and>
      fst ` set cache \<subseteq> fst ` set cache'"
  using assms(2)
proof (induction chs arbitrary: cache seen)
  case Nil
  then show ?case by simp
next
  case (Cons ch chs)
  show ?case
  proof (cases "ch = [] \<or> ch \<in> seen")
    case True
    with Cons show ?thesis by simp
  next
    case False
    from step [OF Cons.prems, of ch] obtain nd c1
      where nd: "build_person_node depth people families cache ch = Some (nd, c1)"
        and sub: "fst ` set cache \<subseteq> fst ` set c1"
      by blast
    from sub Cons.prems have "card (fst ` set people - fst ` set c1) \<le> depth"
      using unvisited_mono [OF sub, of people] by simp
    from Cons.IH [OF this, of "insert ch seen"] obtain nds c2
      where nds: "build_children depth people families c1 (insert ch seen) chs = Some (nds, c2)"
        and sub2: "fst ` set c1 \<subseteq> fst ` set c2"
      by blast
    from False nd nds sub sub2 show ?thesis
      by auto
  qed
qed

lemma build_person_node_returns:
  "card (fst ` set people - fst ` set cache) \<le> depth \<Longrightarrow>
   \<exists>nd cache'. build_person_node depth people families cache h = Some (nd, cache') \<and>
     fst ` set cache \<subseteq> fst ` set cache'"
proof (induction depth arbitrary: cache h)
  case 0
  then have all: "fst ` set people \<subseteq> fst ` set cache"
    by auto
  show ?case
  proof (cases "map_of people h")
    case None
    then show ?thesis
      by (simp add: build_person_node.simps)
  next
    case (Some p)
    then have "h \<in> fst ` set people"
      by (auto dest: map_of_SomeD intro: rev_image_eqI)
    with all have "map_of cache h \<noteq> None"
      by (auto simp: map_of_eq_None_iff)
    with Some show ?thesis
      by (auto simp: build_person_node.simps)
  qed
next
  case (Suc d)
  show ?case
  proof (cases "map_of people h")
    case None
    then show ?thesis
      by (simp add: build_person_node.simps)
  next
    case (Some p)
    then have known: "h \<in> fst ` set people"
      by (auto dest: map_of_SomeD intro: rev_image_eqI)
    show ?thesis
    proof (cases "map_of cache h")
      case cached: (Some nd)
      with Some show ?thesis
        by (simp add: build_person_node.simps)
    next
      case None
      then have new: "h \<notin> fst ` set cache"
        by (simp add: map_of_eq_None_iff)
      let ?c1 = "dict_set h (new_node h p) cache"
      have less: "fst ` set people - fst ` set ?c1 = (fst ` set people - fst ` set cache) - {h}"
        by (auto simp: keys_dict_set)
      have "finite (fst ` set people - fst ` set cache)"
        by simp
      moreover have "h \<in> fst ` set people - fst ` set cache"
        using known new by simp
      ultimately have "card ((fst ` set people - fst ` set cache) - {h}) <
          card (fst ` set people - fst ` set cache)"
        by (rule card_Diff1_less)
      then have "card (fst ` set people - fst ` set ?c1) < card (fst ` set people - fst ` set cache)"
        by (simp only: less)
      with Suc.prems have "card (fst ` set people - fst ` set ?c1) \<le> d"
        by simp
      from build_children_returns [where depth = d and people = people and families = families,
          OF Suc.IH this, of "{}" "children_handles families p"]
      obtain nds c2
        where nds: "build_children d people families ?c1 {} (children_handles families p) = Some (nds, c2)"
          and sub: "fst ` set ?c1 \<subseteq> fst ` set c2"
        by blast
      from sub have "fst ` set cache \<subseteq> insert h (fst ` set c2)"
        by (auto simp: keys_dict_set)
      with Some None nds show ?thesis
        by (simp add: build_person_node.simps keys_dict_set)
    qed
  qed
qed

lemma build_roots_returns:
  "card (fst ` set people - fst ` set cache) \<le> depth \<Longrightarrow>
   \<exists>nds cache'. build_roots depth people families cache hs = Some (nds, cache')"
proof (induction hs arbitrary: cache)
  case Nil
  then show ?case by simp
next
  case (Cons h hs)
  from build_person_node_returns [OF Cons.prems, of families h] obtain nd c1
    where nd: "build_person_node depth people families cache h = Some (nd, c1)"
      and sub: "fst ` set cache \<subseteq> fst ` set c1"
    by blast
  from Cons.prems have "card (fst ` set people - fst ` set c1) \<le> depth"
    using unvisited_mono [OF sub, of people] by simp
  from Cons.IH [OF this] nd show ?case
    by auto
qed

lemma build_treant_tree_returns:
  assumes "length people \<le> depth"
  shows "\<exists>root cache. build_treant_tree depth people families root_handle = Some (root, cache)"
proof -
  have "card (fst ` set people) \<le> length people"
    by (metis card_length length_map list.set_map)
  with assms have fuel: "card (fst ` set people - fst ` set ([] :: node_cache)) \<le> depth"
    by simp
  note one = build_person_node_returns [OF fuel, of families]
  note many = build_roots_returns [OF fuel, of families]
  show ?thesis
  proof (cases "truthy root_handle")
    case True
    with one [of "the root_handle"] show ?thesis
      by (auto simp: build_treant_tree_def)
  next
    case False
    show ?thesis
    proof (cases "\<exists>h. root_candidates people = [h]")
      case True
      then obtain h where "root_candidates people = [h]" by blast
      with False one [of h] show ?thesis
        by (auto simp: build_treant_tree_def)
    next
      case no: False
      with False many [of "root_candidates people"] show ?thesis
        by (auto simp: build_treant_tree_def split: list.splits)
    qed
  qed
qed

text \<open>
  The children of the node built for a known, uncached handle are the references for the
  gathered handles, each non-empty handle once, the first occurrence kept.
\<close>

lemma build_person_node_ref:
  "build_person_node depth people families cache h = Some (nd, cache') \<Longrightarrow>
   nd = node_ref_of people h"
  by (auto simp: build_person_node.simps [of depth people families cache h] node_ref_of_def
      split: option.splits nat.splits)

lemma remdups_snoc: "remdups (xs @ [x]) = filter (\<lambda>y. y \<noteq> x) (remdups xs) @ [x]"
  by (induction xs) auto

lemma first_kept:
  "rev (remdups (rev (x # xs))) = x # rev (remdups (rev (filter (\<lambda>y. y \<noteq> x) xs)))"
  by (simp add: remdups_snoc remdups_filter rev_filter)

lemma build_children_refs:
  "build_children depth people families cache seen chs = Some (nds, cache') \<Longrightarrow>
   nds = map (node_ref_of people)
           (first_occurrences (filter (\<lambda>ch. ch \<notin> seen) chs))"
proof (induction chs arbitrary: cache seen nds)
  case Nil
  then show ?case by (simp add: first_occurrences_def)
next
  case (Cons ch chs)
  show ?case
  proof (cases "ch = [] \<or> ch \<in> seen")
    case True
    with Cons.prems have "build_children depth people families cache seen chs = Some (nds, cache')"
      by simp
    from Cons.IH [OF this] True show ?thesis
      by (auto simp: first_occurrences_def)
  next
    case False
    with Cons.prems obtain nd c1 rest
      where nd: "build_person_node depth people families cache ch = Some (nd, c1)"
        and rest: "build_children depth people families c1 (insert ch seen) chs = Some (rest, cache')"
        and nds: "nds = nd # rest"
      by (auto split: option.splits)
    have "filter (\<lambda>y. y \<noteq> ch) (filter (\<lambda>ch. ch \<noteq> []) (filter (\<lambda>ch. ch \<notin> seen) chs)) =
        filter (\<lambda>ch. ch \<noteq> []) (filter (\<lambda>x. x \<notin> insert ch seen) chs)"
      by (induction chs) auto
    with False have "first_occurrences (filter (\<lambda>ch. ch \<notin> seen) (ch # chs)) =
        ch # first_occurrences (filter (\<lambda>x. x \<notin> insert ch seen) chs)"
      by (simp add: first_occurrences_def first_kept del: rev.simps remdups.simps)
    with Cons.IH [OF rest] build_person_node_ref [OF nd] nds show ?thesis
      by simp
  qed
qed

lemma lookup_dict_set: "map_of (dict_set k v d) k = Some v"
  by (simp add: dict_set_def update_conv')

lemma build_person_node_children:
  assumes "map_of people h = Some p" and "map_of cache h = None"
    and "build_person_node depth people families cache h = Some (nd, cache')"
  shows "nd = PersonRef h \<and>
     map_of cache' h = Some ((new_node h p)\<lparr>n_children :=
       Some (map (node_ref_of people) (first_occurrences (children_handles families p)))\<rparr>)"
proof -
  from assms obtain d nds c2 where "depth = Suc d"
    and nds: "build_children d people families (dict_set h (new_node h p) cache) {}
        (children_handles families p) = Some (nds, c2)"
    and res: "nd = PersonRef h"
      "cache' = dict_set h ((new_node h p)\<lparr>n_children := Some nds\<rparr>) c2"
    by (auto simp: build_person_node.simps [of depth people families cache h]
        split: option.splits nat.splits)
  from build_children_refs [OF nds] res show ?thesis
    by (simp add: lookup_dict_set)
qed

lemma first_occurrences_distinct: "distinct (first_occurrences chs) \<and> set (first_occurrences chs) = set chs - {[]}"
  by (auto simp: first_occurrences_def)

text \<open>
  C2 (the claim fails on the code). Tree synthesis returns for every input
  (\<open>build_treant_tree_returns\<close>) and the children of a node have no duplicates
  (\<open>build_person_node_children\<close>), but what it returns for a relation with a cycle is not
  a finite tree. For a person who is father and child of one family, the node of the
  person is returned from the cache while it is being built and becomes its own child:
  the root refers to itself, and no depth suffices to unfold it into a tree.
\<close>

theorem cyclic_relation_gives_cyclic_root:
  "map_option (map_sum id out_tree) (convert (Suc d) self_parent_doc None None None) =
     Some (Inr (Single (PersonRef ''A''), self_parent_cache)) \<and>
   map_option n_children (map_of self_parent_cache ''A'') = Some (Some [PersonRef ''A'']) \<and>
   tree_of n self_parent_cache (PersonRef ''A'') = None"
proof -
  have "map_option (map_sum id out_tree) (convert (Suc d) self_parent_doc None None None) =
      Some (Inr (Single (PersonRef ''A''), self_parent_cache))"
    by code_simp
  moreover have "map_option n_children (map_of self_parent_cache ''A'') =
      Some (Some [PersonRef ''A''])"
    by code_simp
  moreover have "tree_of n self_parent_cache (PersonRef ''A'') = None"
    by (induction n) (simp_all add: self_parent_cache_def)
  ultimately show ?thesis
    by simp
qed

theorem cyclic_relation_gives_cyclic_root_witness:
  "map_option (map_sum id out_tree) (convert 1 self_parent_doc None None None) =
     Some (Inr (Single (PersonRef ''A''), self_parent_cache)) \<and>
   tree_of 1000 self_parent_cache (PersonRef ''A'') = None"
  using cyclic_relation_gives_cyclic_root [of 0 1000] by simp

end
